theory Spec2Isabelle
  imports Complex_Main
begin

section \<open>Python values used by \<open>calculate_calories.py\<close>\<close>

subsection \<open>Text\<close>

text \<open>
  A Python \<open>str\<close> is a sequence of Unicode code points, and the width of a format field
  counts code points. A text is therefore a list of code points; \<open>asc\<close> embeds an ASCII
  literal.
\<close>

type_synonym pystr = "nat list"

definition asc :: "string \<Rightarrow> pystr" where
  "asc s = map of_char s"

text \<open>\<open>{s:<w}\<close>: left-aligned in a field of at least \<open>w\<close> code points, filled with spaces.\<close>

definition ljust :: "nat \<Rightarrow> pystr \<Rightarrow> pystr" where
  "ljust w s = s @ replicate (w - length s) 32"

text \<open>\<open>{s:>w}\<close>: right-aligned in a field of at least \<open>w\<close> code points, filled with spaces.\<close>

definition rjust :: "nat \<Rightarrow> pystr \<Rightarrow> pystr" where
  "rjust w s = replicate (w - length s) 32 @ s"

definition zfill :: "nat \<Rightarrow> pystr \<Rightarrow> pystr" where
  "zfill w s = replicate (w - length s) 48 @ s"

fun str_nat :: "nat \<Rightarrow> pystr" where
  "str_nat n = (if n < 10 then [48 + n] else str_nat (n div 10) @ [48 + n mod 10])"

declare str_nat.simps [simp del]

text \<open>\<open>str(i)\<close> for an \<open>int\<close>.\<close>

definition str_int :: "int \<Rightarrow> pystr" where
  "str_int i = (if i < 0 then 45 # str_nat (nat (- i)) else str_nat (nat i))"

subsection \<open>Floats\<close>

text \<open>
  A Python \<open>float\<close> is an IEEE 754 binary64 value: a finite number (a rational; \<open>Fin 0\<close> is
  \<open>0.0\<close>), the negative zero, an infinity or a NaN.
\<close>

datatype pyfloat = Fin rat | NegZero | PosInf | NegInf | NaN

datatype pynum = PyInt int | PyFloat pyfloat

datatype error = OverflowError | ValueError

function bit_length :: "int \<Rightarrow> nat" where
  "bit_length n = (if n \<le> 0 then 0 else Suc (bit_length (n div 2)))"
  by pat_completeness auto
termination
  by (relation "measure nat") auto

declare bit_length.simps [simp del]

text \<open>\<open>floor_log2 x\<close> is the integer \<open>e\<close> with \<open>2^e \<le> x < 2^(e+1)\<close>, for \<open>x > 0\<close>.\<close>

definition floor_log2 :: "rat \<Rightarrow> int" where
  "floor_log2 x = (if 1 \<le> x then int (bit_length \<lfloor>x\<rfloor>) - 1
                   else - int (bit_length (\<lceil>1 / x\<rceil> - 1)))"

definition pow2 :: "int \<Rightarrow> rat" where
  "pow2 e = (if 0 \<le> e then of_int (2 ^ nat e) else 1 / of_int (2 ^ nat (- e)))"

definition round_half_even :: "rat \<Rightarrow> int" where
  "round_half_even x =
     (let f = \<lfloor>x\<rfloor>; d = x - of_int f
      in if d < 1 / 2 then f else if 1 / 2 < d then f + 1
         else if even f then f else f + 1)"

text \<open>
  Rounding of a real number to binary64, to nearest with ties to even: the 53-bit
  significand in the binade of \<open>x\<close> (the subnormal numbers share the exponent \<open>-1022\<close>),
  overflow to an infinity, underflow to a signed zero.
\<close>

definition round_binary64 :: "rat \<Rightarrow> pyfloat" where
  "round_binary64 x =
     (if x = 0 then Fin 0
      else let a = \<bar>x\<bar>;
               ulp = pow2 (max (floor_log2 a) (- 1022) - 52);
               r = of_int (round_half_even (a / ulp)) * ulp
           in if of_int (2 ^ 1024) \<le> r then (if x < 0 then NegInf else PosInf)
              else if r = 0 then (if x < 0 then NegZero else Fin 0)
              else Fin (if x < 0 then - r else r))"

text \<open>A decimal float literal of the source denotes the nearest binary64 value.\<close>

definition float_lit :: "rat \<Rightarrow> pyfloat" where
  "float_lit d = round_binary64 d"

text \<open>\<open>x + y\<close> on floats.\<close>

fun fadd :: "pyfloat \<Rightarrow> pyfloat \<Rightarrow> pyfloat" where
  "fadd NaN _ = NaN"
| "fadd _ NaN = NaN"
| "fadd PosInf NegInf = NaN"
| "fadd NegInf PosInf = NaN"
| "fadd PosInf _ = PosInf"
| "fadd _ PosInf = PosInf"
| "fadd NegInf _ = NegInf"
| "fadd _ NegInf = NegInf"
| "fadd NegZero y = y"
| "fadd x NegZero = x"
| "fadd (Fin a) (Fin b) = (if a + b = 0 then Fin 0 else round_binary64 (a + b))"

fun fneg :: "pyfloat \<Rightarrow> pyfloat" where
  "fneg (Fin a) = (if a = 0 then NegZero else Fin (- a))"
| "fneg NegZero = Fin 0"
| "fneg PosInf = NegInf"
| "fneg NegInf = PosInf"
| "fneg NaN = NaN"

text \<open>\<open>x - y\<close> on floats.\<close>

definition fsub :: "pyfloat \<Rightarrow> pyfloat \<Rightarrow> pyfloat" where
  "fsub x y = fadd x (fneg y)"

text \<open>\<open>abs(x)\<close> on a float.\<close>

fun fabs :: "pyfloat \<Rightarrow> pyfloat" where
  "fabs (Fin a) = Fin \<bar>a\<bar>"
| "fabs NegZero = Fin 0"
| "fabs PosInf = PosInf"
| "fabs NegInf = PosInf"
| "fabs NaN = NaN"

text \<open>
  The conversion of an \<open>int\<close> to a \<open>float\<close>, as in \<open>int + float\<close> and in formatting an
  \<open>int\<close> with \<open>f\<close>: correctly rounded, \<open>OverflowError\<close> beyond the range.
\<close>

definition float_of_int :: "int \<Rightarrow> error + pyfloat" where
  "float_of_int i =
     (case round_binary64 (of_int i) of
        PosInf \<Rightarrow> Inl OverflowError
      | NegInf \<Rightarrow> Inl OverflowError
      | f \<Rightarrow> Inr f)"

fun to_float :: "pynum \<Rightarrow> error + pyfloat" where
  "to_float (PyInt i) = float_of_int i"
| "to_float (PyFloat f) = Inr f"

text \<open>\<open>t + c\<close> and \<open>t - c\<close> for a number \<open>t\<close> and a float \<open>c\<close>: the result is a float.\<close>

definition num_add :: "pynum \<Rightarrow> pyfloat \<Rightarrow> error + pynum" where
  "num_add t c = (case to_float t of Inl e \<Rightarrow> Inl e | Inr f \<Rightarrow> Inr (PyFloat (fadd f c)))"

definition num_sub :: "pynum \<Rightarrow> pyfloat \<Rightarrow> error + pynum" where
  "num_sub t c = (case to_float t of Inl e \<Rightarrow> Inl e | Inr f \<Rightarrow> Inr (PyFloat (fsub f c)))"

text \<open>\<open>abs(t)\<close>.\<close>

fun num_abs :: "pynum \<Rightarrow> pynum" where
  "num_abs (PyInt i) = PyInt \<bar>i\<bar>"
| "num_abs (PyFloat f) = PyFloat (fabs f)"

subsection \<open>Rounding to an integer\<close>

text \<open>C's \<open>round\<close>: to the nearest integer, halfway cases away from zero.\<close>

definition c_round :: "rat \<Rightarrow> int" where
  "c_round x = (if 0 \<le> x then \<lfloor>x + 1 / 2\<rfloor> else - \<lfloor>- x + 1 / 2\<rfloor>)"

text \<open>
  \<open>round(x)\<close> of a float with no second argument, as CPython computes it: C's \<open>round\<close>,
  then in a halfway case twice the \<open>round\<close> of the half; the result is converted to an
  \<open>int\<close>, which raises for an infinity or a NaN. Each of these float operations is
  exact in that branch.
\<close>

fun float_round :: "pyfloat \<Rightarrow> error + int" where
  "float_round (Fin x) =
     (let rounded = c_round x
      in if \<bar>x - of_int rounded\<bar> = 1 / 2 then Inr (2 * c_round (x / 2)) else Inr rounded)"
| "float_round NegZero = Inr 0"
| "float_round PosInf = Inl OverflowError"
| "float_round NegInf = Inl OverflowError"
| "float_round NaN = Inl ValueError"

text \<open>\<open>round(t)\<close>: an \<open>int\<close> is its own rounding.\<close>

fun py_round :: "pynum \<Rightarrow> error + int" where
  "py_round (PyInt i) = Inr i"
| "py_round (PyFloat f) = float_round f"

subsection \<open>Fixed-point formatting\<close>

definition fixed_digits :: "nat \<Rightarrow> nat \<Rightarrow> pystr" where
  "fixed_digits p c =
     str_nat (c div 10 ^ p) @ (if p = 0 then [] else 46 # zfill p (str_nat (c mod 10 ^ p)))"

text \<open>
  \<open>{x:.pf}\<close> of a float: the decimal with \<open>p\<close> fractional digits nearest to the exact
  value of \<open>x\<close> (ties to even), with the sign of \<open>x\<close>.
\<close>

fun format_f :: "nat \<Rightarrow> pyfloat \<Rightarrow> pystr" where
  "format_f p (Fin v) =
     (if v < 0 then [45] else []) @ fixed_digits p (nat (round_half_even (\<bar>v\<bar> * 10 ^ p)))"
| "format_f p NegZero = 45 # fixed_digits p 0"
| "format_f p PosInf = asc ''inf''"
| "format_f p NegInf = asc ''-inf''"
| "format_f p NaN = asc ''nan''"

definition num_format_f :: "nat \<Rightarrow> pynum \<Rightarrow> error + pystr" where
  "num_format_f p t = (case to_float t of Inl e \<Rightarrow> Inl e | Inr f \<Rightarrow> Inr (format_f p f))"

section \<open>The program\<close>

type_synonym entry = "pystr \<times> pyfloat"

definition nutrition_logs :: "entry list" where
  "nutrition_logs =
    [(asc ''95% lean minced beef - HKMEATLO'', float_lit 154.72),
     (asc ''NOW Foods, Zinc Picolinat'', float_lit 0.00),
     (asc ''Chicken Breast Fillet'', float_lit 165.00),
     (asc ''Natrol, Melatonin, Time Release, 3 mg'', float_lit 0.00),
     (asc ''Broccoli'', float_lit 57.57),
     (asc ''Liquid Egg white'', float_lit 117.50),
     (asc ''white rice (uncooked)'', float_lit 337.50),
     (asc ''Sport research Omegas 3'', float_lit 60.00),
     (asc ''Redon1 Mre'', float_lit 530.00),
     (asc ''Canola oil'', float_lit 53.14),
     (asc ''Excellence Mint Intense Chocolate'', float_lit 107.00),
     (asc ''Mark and Spencer'' @ [39] @ asc ''s protein bagel'', float_lit 237.06),
     (asc ''Life Extension, Two-Per-Day Multivitamin'', float_lit 0.00),
     (asc ''California Gold Nutrition, CoQ10 with Bioperine'', float_lit 0.00),
     (asc ''NOW Foods, NAC'', float_lit 0.00),
     ([0x6DEE, 0x5C71, 0x9EB5], float_lit 351.51),
     (asc ''Life Extension, Super K'', float_lit 0.00),
     (asc ''Fried Egg'', float_lit 90.00),
     (asc ''Alpen no added sugar (v3)'', float_lit 276.75),
     (asc ''Oatly Chocolate Oatmilk (updated)'', float_lit 151.11),
     (asc ''Oatly Chocolate Oatmilk (updated)'', float_lit 151.11),
     (asc ''Life Extension, Two-Per-Day Multivitamin'', float_lit 0.00)]"

definition backend_value :: pyfloat where
  "backend_value = float_lit 2839.97"

text \<open>The fixed texts of the report.\<close>

definition header :: pystr where
  "header = [0x5361, 0x8DEF, 0x91CC, 0x660E, 0x7D30, 0x8A08, 0x7B97] @ asc '':''"

definition rule50 :: pystr where
  "rule50 = replicate 50 45"

definition total_label :: pystr where
  "total_label = [0x7E3D, 0x8A08]"

definition rounded_label :: pystr where
  "rounded_label = [0x56DB, 0x6368, 0x4E94, 0x5165, 0x5F8C] @ asc '': ''"

definition backend_label :: pystr where
  "backend_label = [10, 0x5F8C, 0x7AEF] @ asc '' API '' @ [0x56DE, 0x50B3] @ asc '': ''"

definition diff_label :: pystr where
  "diff_label = [0x5DEE, 0x7570] @ asc '': ''"

definition ui_label :: pystr where
  "ui_label = asc ''UI '' @ [0x986F, 0x793A] @ asc '' (''
     @ [0x56DB, 0x6368, 0x4E94, 0x5165] @ asc ''): ''"

text \<open>\<open>f"{food_name:<45} {calories:>8.2f} cal"\<close>\<close>

definition format_row :: "pystr \<Rightarrow> pyfloat \<Rightarrow> pystr" where
  "format_row food_name calories =
     ljust 45 food_name @ asc '' '' @ rjust 8 (format_f 2 calories) @ asc '' cal''"

text \<open>
  The loop over the entries: the state is the text printed so far (one element for each
  \<open>print\<close>) and \<open>total_calories\<close>.
\<close>

fun log_loop :: "entry list \<Rightarrow> pystr list \<times> pynum \<Rightarrow> error + pystr list \<times> pynum" where
  "log_loop [] st = Inr st"
| "log_loop ((food_name, calories) # rest) (out, total_calories) =
     (case num_add total_calories calories of
        Inl e \<Rightarrow> Inl e
      | Inr t \<Rightarrow> log_loop rest (out @ [format_row food_name calories], t))"

text \<open>\<open>total_calories\<close> after the loop, which starts from the \<open>int\<close> \<open>0\<close>.\<close>

definition compute_total :: "entry list \<Rightarrow> error + pynum" where
  "compute_total logs =
     (case log_loop logs ([], PyInt 0) of Inl e \<Rightarrow> Inl e | Inr (out, total_calories) \<Rightarrow> Inr total_calories)"

text \<open>\<open>f"{'...':<45} {total_calories:>8.2f} cal"\<close>\<close>

definition total_row :: "pynum \<Rightarrow> error + pystr" where
  "total_row total_calories =
     (case num_format_f 2 total_calories of
        Inl e \<Rightarrow> Inl e
      | Inr s \<Rightarrow> Inr (ljust 45 total_label @ asc '' '' @ rjust 8 s @ asc '' cal''))"

text \<open>The two lines of the comparison with \<open>backend_value\<close>.\<close>

definition compare :: "pynum \<Rightarrow> pyfloat \<Rightarrow> error + pystr list" where
  "compare total_calories backend =
     (let line1 = backend_label @ format_f 2 backend @ asc '' cal''
      in case num_sub total_calories backend of
           Inl e \<Rightarrow> Inl e
         | Inr d \<Rightarrow>
             (case num_format_f 2 (num_abs d) of
                Inl e \<Rightarrow> Inl e
              | Inr s \<Rightarrow> Inr [line1, diff_label @ s @ asc '' cal'']))"

text \<open>
  The whole script, with the entry list and the reference value as parameters. The result
  is the sequence of printed texts, or the exception that ends the run.
\<close>

definition report :: "entry list \<Rightarrow> pyfloat \<Rightarrow> error + pystr list" where
  "report logs backend =
     (case log_loop logs ([header, rule50], PyInt 0) of
        Inl e \<Rightarrow> Inl e
      | Inr (out, total_calories) \<Rightarrow>
     (case total_row total_calories of
        Inl e \<Rightarrow> Inl e
      | Inr trow \<Rightarrow>
     (case py_round total_calories of
        Inl e \<Rightarrow> Inl e
      | Inr rounded \<Rightarrow>
     (case compare total_calories backend of
        Inl e \<Rightarrow> Inl e
      | Inr cmp \<Rightarrow>
     (case py_round total_calories of
        Inl e \<Rightarrow> Inl e
      | Inr ui_display \<Rightarrow>
          Inr (out @ [rule50, trow, rounded_label @ str_int rounded @ asc '' cal'']
                 @ cmp @ [ui_label @ str_int ui_display @ asc '' cal'']))))))"



text \<open>\<open>round(total_calories)\<close>, the value of \<open>ui_display\<close>, for an entry list.\<close>

definition ui_display :: "entry list \<Rightarrow> error + int" where
  "ui_display logs =
     (case compute_total logs of
        Inl e \<Rightarrow> Inl e
      | Inr total_calories \<Rightarrow> py_round total_calories)"

text \<open>\<open>abs(total_calories - backend_value)\<close> for an entry list and a reference value.\<close>

definition difference :: "entry list \<Rightarrow> pyfloat \<Rightarrow> error + pynum" where
  "difference logs backend =
     (case compute_total logs of
        Inl e \<Rightarrow> Inl e
      | Inr total_calories \<Rightarrow>
          (case num_sub total_calories backend of
             Inl e \<Rightarrow> Inl e
           | Inr d \<Rightarrow> Inr (num_abs d)))"

section \<open>The standard output\<close>

























section \<open>Reading the results\<close>

text \<open>The number a Python value denotes, when it denotes one.\<close>

fun float_value :: "pyfloat \<Rightarrow> rat option" where
  "float_value (Fin v) = Some v"
| "float_value NegZero = Some 0"
| "float_value PosInf = None"
| "float_value NegInf = None"
| "float_value NaN = None"

fun num_value :: "pynum \<Rightarrow> rat option" where
  "num_value (PyInt i) = Some (of_int i)"
| "num_value (PyFloat f) = float_value f"

text \<open>\<open>near r x eps\<close>: the computation \<open>r\<close> returns a number within \<open>eps\<close> of \<open>x\<close>.\<close>

definition near :: "error + pynum \<Rightarrow> rat \<Rightarrow> rat \<Rightarrow> bool" where
  "near r x eps =
     (case r of
        Inl e \<Rightarrow> False
      | Inr t \<Rightarrow> (case num_value t of None \<Rightarrow> False | Some v \<Rightarrow> \<bar>v - x\<bar> \<le> eps))"

text \<open>
  The number a fixed-point text of \<open>p\<close> fractional digits denotes: an optional minus
  sign, the digits before the point, the point, \<open>p\<close> digits.
\<close>

definition digits_value :: "pystr \<Rightarrow> nat" where
  "digits_value s = foldl (\<lambda>a c. 10 * a + (c - 48)) 0 s"

definition read_fixed :: "nat \<Rightarrow> pystr \<Rightarrow> rat" where
  "read_fixed p s =
     (let neg = (s \<noteq> [] \<and> hd s = 45);
          body = (if neg then tl s else s);
          ip = take (length body - p - 1) body;
          fp = drop (length body - p) body
      in (if neg then - 1 else 1)
         * (of_nat (digits_value ip) + of_nat (digits_value fp) / 10 ^ p))"

section \<open>The row layout in the words of the specification\<close>

text \<open>
  Following the specification's words, not the source: the label padded or truncated to
  exactly 45 columns, the calories right-aligned in 8 columns with 2 decimals, then
  \<open>cal\<close>.
\<close>

definition spec_format_row :: "pystr \<Rightarrow> pyfloat \<Rightarrow> pystr" where
  "spec_format_row label calories =
     take 45 (ljust 45 label) @ asc '' '' @ rjust 8 (format_f 2 calories) @ asc '' cal''"

section \<open>Evaluation of the float operations\<close>

lemma floor_rat_numeral: "\<lfloor>numeral a / numeral b :: rat\<rfloor> = numeral a div numeral b"
  by (metis floor_divide_of_int_eq of_int_numeral)

lemma ceiling_rat_numeral: "\<lceil>numeral a / numeral b :: rat\<rceil> = - (- numeral a div numeral b)"
  using ceiling_divide_eq_div [of "numeral a" "numeral b", where ?'a = rat] by simp

lemma pow2_pos: "0 < pow2 e"
  by (simp add: pow2_def)

text \<open>
  The rounding of a positive number, from its binade \<open>e\<close> and its rounded significand
  \<open>m\<close>: each premise is a computation on numerals.
\<close>

lemma round_binary64_eqI:
  assumes x: "0 < x" and e: "floor_log2 x = e" "- 1022 \<le> e"
    and m: "round_half_even (x / pow2 (e - 52)) = m" "0 < m"
    and r: "of_int m * pow2 (e - 52) = r" "r < of_int (2 ^ 1024)"
  shows "round_binary64 x = Fin r"
proof -
  have ax: "\<bar>x\<bar> = x" and mx: "max (floor_log2 x) (- 1022) = e"
    using x e by simp_all
  have r0: "r \<noteq> 0"
    using m(2) r(1) pow2_pos [of "e - 52"] by auto
  have "round_binary64 x = (if of_int (2 ^ 1024) \<le> r then PosInf else Fin r)"
    using x r0 unfolding round_binary64_def Let_def ax mx m(1) r(1) by simp
  then show ?thesis
    using r(2) by simp
qed

lemmas eval_simps = floor_log2_def bit_length.simps round_half_even_def pow2_def Let_def
  floor_rat_numeral ceiling_rat_numeral

lemma lit_154_72: "float_lit 154.72 = Fin (5443726049584087 / 35184372088832)"
  unfolding float_lit_def
  by (rule round_binary64_eqI [where e = 7 and m = 5443726049584087]) (simp_all add: eval_simps)

lemma lit_0_00: "float_lit 0.00 = Fin 0"
  by (simp add: float_lit_def round_binary64_def)

lemma lit_165_00: "float_lit 165.00 = Fin 165"
  unfolding float_lit_def
  by (rule round_binary64_eqI [where e = 7 and m = 5805421394657280]) (simp_all add: eval_simps)

lemma lit_57_57: "float_lit 57.57 = Fin (8102257204616233 / 140737488355328)"
  unfolding float_lit_def
  by (rule round_binary64_eqI [where e = 5 and m = 8102257204616233]) (simp_all add: eval_simps)

lemma lit_117_50: "float_lit 117.50 = Fin (235 / 2)"
  unfolding float_lit_def
  by (rule round_binary64_eqI [where e = 6 and m = 8268327440875520]) (simp_all add: eval_simps)

lemma lit_337_50: "float_lit 337.50 = Fin (675 / 2)"
  unfolding float_lit_def
  by (rule round_binary64_eqI [where e = 8 and m = 5937362789990400]) (simp_all add: eval_simps)

lemma lit_60_00: "float_lit 60.00 = Fin 60"
  unfolding float_lit_def
  by (rule round_binary64_eqI [where e = 5 and m = 8444249301319680]) (simp_all add: eval_simps)

lemma lit_530_00: "float_lit 530.00 = Fin 530"
  unfolding float_lit_def
  by (rule round_binary64_eqI [where e = 9 and m = 4661929301770240]) (simp_all add: eval_simps)

lemma lit_53_14: "float_lit 53.14 = Fin (3739395065601065 / 70368744177664)"
  unfolding float_lit_def
  by (rule round_binary64_eqI [where e = 5 and m = 7478790131202130]) (simp_all add: eval_simps)

lemma lit_107_00: "float_lit 107.00 = Fin 107"
  unfolding float_lit_def
  by (rule round_binary64_eqI [where e = 6 and m = 7529455627010048]) (simp_all add: eval_simps)

lemma lit_237_06: "float_lit 237.06 = Fin (4170403623689257 / 17592186044416)"
  unfolding float_lit_def
  by (rule round_binary64_eqI [where e = 7 and m = 8340807247378514]) (simp_all add: eval_simps)

lemma lit_351_51: "float_lit 351.51 = Fin (1545957329118167 / 4398046511104)"
  unfolding float_lit_def
  by (rule round_binary64_eqI [where e = 8 and m = 6183829316472668]) (simp_all add: eval_simps)

lemma lit_90_00: "float_lit 90.00 = Fin 90"
  unfolding float_lit_def
  by (rule round_binary64_eqI [where e = 6 and m = 6333186975989760]) (simp_all add: eval_simps)

lemma lit_276_75: "float_lit 276.75 = Fin (1107 / 4)"
  unfolding float_lit_def
  by (rule round_binary64_eqI [where e = 8 and m = 4868637487792128]) (simp_all add: eval_simps)

lemma lit_151_11: "float_lit 151.11 = Fin (1329177616585851 / 8796093022208)"
  unfolding float_lit_def
  by (rule round_binary64_eqI [where e = 7 and m = 5316710466343404]) (simp_all add: eval_simps)

lemma lit_2839_97: "float_lit 2839.97 = Fin (6245160075070013 / 2199023255552)"
  unfolding float_lit_def
  by (rule round_binary64_eqI [where e = 11 and m = 6245160075070013]) (simp_all add: eval_simps)

lemma sum_1: "fadd (Fin 0) (Fin (5443726049584087 / 35184372088832)) = Fin (5443726049584087 / 35184372088832)"
  by simp (rule round_binary64_eqI [where e = 7 and m = 5443726049584087], simp_all add: eval_simps)

lemma sum_2: "fadd (Fin (5443726049584087 / 35184372088832)) (Fin 0) = Fin (5443726049584087 / 35184372088832)"
  by simp (rule round_binary64_eqI [where e = 7 and m = 5443726049584087], simp_all add: eval_simps)

lemma sum_3: "fadd (Fin (5443726049584087 / 35184372088832)) (Fin 165) = Fin (1406143430530171 / 4398046511104)"
  by simp (rule round_binary64_eqI [where e = 8 and m = 5624573722120684], simp_all add: eval_simps)

lemma sum_4: "fadd (Fin (1406143430530171 / 4398046511104)) (Fin 0) = Fin (1406143430530171 / 4398046511104)"
  by simp (rule round_binary64_eqI [where e = 8 and m = 5624573722120684], simp_all add: eval_simps)

lemma sum_5: "fadd (Fin (1406143430530171 / 4398046511104)) (Fin (8102257204616233 / 140737488355328)) = Fin (6637355872697713 / 17592186044416)"
  by simp (rule round_binary64_eqI [where e = 8 and m = 6637355872697713], simp_all add: eval_simps)

lemma sum_6: "fadd (Fin (6637355872697713 / 17592186044416)) (Fin (235 / 2)) = Fin (8704437732916593 / 17592186044416)"
  by simp (rule round_binary64_eqI [where e = 8 and m = 8704437732916593], simp_all add: eval_simps)

lemma sum_7: "fadd (Fin (8704437732916593 / 17592186044416)) (Fin (675 / 2)) = Fin (915112532681687 / 1099511627776)"
  by simp (rule round_binary64_eqI [where e = 9 and m = 7320900261453496], simp_all add: eval_simps)

lemma sum_8: "fadd (Fin (915112532681687 / 1099511627776)) (Fin 60) = Fin (981083230348247 / 1099511627776)"
  by simp (rule round_binary64_eqI [where e = 9 and m = 7848665842785976], simp_all add: eval_simps)

lemma sum_9: "fadd (Fin (981083230348247 / 1099511627776)) (Fin 530) = Fin (1563824393069527 / 1099511627776)"
  by simp (rule round_binary64_eqI [where e = 10 and m = 6255297572278108], simp_all add: eval_simps)

lemma sum_10: "fadd (Fin (1563824393069527 / 1099511627776)) (Fin (3739395065601065 / 70368744177664)) = Fin (6489009763878175 / 4398046511104)"
  by simp (rule round_binary64_eqI [where e = 10 and m = 6489009763878175], simp_all add: eval_simps)

lemma sum_11: "fadd (Fin (6489009763878175 / 4398046511104)) (Fin 107) = Fin (6959600740566303 / 4398046511104)"
  by simp (rule round_binary64_eqI [where e = 10 and m = 6959600740566303], simp_all add: eval_simps)

lemma sum_12: "fadd (Fin (6959600740566303 / 4398046511104)) (Fin (4170403623689257 / 17592186044416)) = Fin (8002201646488617 / 4398046511104)"
  by simp (rule round_binary64_eqI [where e = 10 and m = 8002201646488617], simp_all add: eval_simps)

lemma sum_13: "fadd (Fin (8002201646488617 / 4398046511104)) (Fin 0) = Fin (8002201646488617 / 4398046511104)"
  by simp (rule round_binary64_eqI [where e = 10 and m = 8002201646488617], simp_all add: eval_simps)

lemma sum_14: "fadd (Fin (8002201646488617 / 4398046511104)) (Fin (1545957329118167 / 4398046511104)) = Fin 2171"
  by simp (rule round_binary64_eqI [where e = 11 and m = 4774079487803392], simp_all add: eval_simps)

lemma sum_15: "fadd (Fin 2171) (Fin 0) = Fin 2171"
  by simp (rule round_binary64_eqI [where e = 11 and m = 4774079487803392], simp_all add: eval_simps)

lemma sum_16: "fadd (Fin 2171) (Fin 90) = Fin 2261"
  by simp (rule round_binary64_eqI [where e = 11 and m = 4971991580803072], simp_all add: eval_simps)

lemma sum_17: "fadd (Fin 2261) (Fin (1107 / 4)) = Fin (10151 / 4)"
  by simp (rule round_binary64_eqI [where e = 11 and m = 5580571266777088], simp_all add: eval_simps)

lemma sum_18: "fadd (Fin (10151 / 4)) (Fin (1329177616585851 / 8796093022208)) = Fin (5912865670923551 / 2199023255552)"
  by simp (rule round_binary64_eqI [where e = 11 and m = 5912865670923551], simp_all add: eval_simps)

lemma sum_19: "fadd (Fin (5912865670923551 / 2199023255552)) (Fin (1329177616585851 / 8796093022208)) = Fin (3122580037535007 / 1099511627776)"
  by simp (rule round_binary64_eqI [where e = 11 and m = 6245160075070014], simp_all add: eval_simps)

lemma sum_20: "fadd (Fin (3122580037535007 / 1099511627776)) (Fin 0) = Fin (3122580037535007 / 1099511627776)"
  by simp (rule round_binary64_eqI [where e = 11 and m = 6245160075070014], simp_all add: eval_simps)

lemmas lit_simps = lit_154_72 lit_0_00 lit_165_00 lit_57_57 lit_117_50 lit_337_50 lit_60_00
  lit_530_00 lit_53_14 lit_107_00 lit_237_06 lit_351_51 lit_90_00 lit_276_75
  lit_151_11 lit_2839_97

lemmas sum_simps = sum_1 sum_2 sum_3 sum_4 sum_5 sum_6 sum_7 sum_8 sum_9 sum_10 sum_11 sum_12
  sum_13 sum_14 sum_15 sum_16 sum_17 sum_18 sum_19 sum_20

lemma calories_fixed:
  "map snd nutrition_logs = [float_lit 154.72, float_lit 0.00, float_lit 165.00, float_lit 0.00, float_lit 57.57, float_lit 117.50, float_lit 337.50, float_lit 60.00, float_lit 530.00, float_lit 53.14, float_lit 107.00, float_lit 237.06, float_lit 0.00, float_lit 0.00, float_lit 0.00, float_lit 351.51, float_lit 0.00, float_lit 90.00, float_lit 276.75, float_lit 151.11, float_lit 151.11, float_lit 0.00]"
  by (simp only: nutrition_logs_def list.map snd_conv)

lemma float_sum_fixed:
  "foldl fadd (Fin 0) (map snd nutrition_logs) = Fin (3122580037535007 / 1099511627776)"
  by (simp only: calories_fixed lit_simps foldl.simps sum_simps)

subsection \<open>A check of the model\<close>

text \<open>
  A well-known fact of binary64 arithmetic, as a check of the model: \<open>0.1 + 0.2\<close> is not
  \<open>0.3\<close> but the next float, \<open>0.30000000000000004\<close>.
\<close>

lemma lit_0_1: "float_lit 0.1 = Fin (3602879701896397 / 36028797018963968)"
  unfolding float_lit_def
  by (rule round_binary64_eqI [where e = "- 4" and m = 7205759403792794]) (simp_all add: eval_simps)

lemma lit_0_2: "float_lit 0.2 = Fin (3602879701896397 / 18014398509481984)"
  unfolding float_lit_def
  by (rule round_binary64_eqI [where e = "- 3" and m = 7205759403792794]) (simp_all add: eval_simps)

lemma lit_0_3: "float_lit 0.3 = Fin (5404319552844595 / 18014398509481984)"
  unfolding float_lit_def
  by (rule round_binary64_eqI [where e = "- 2" and m = 5404319552844595]) (simp_all add: eval_simps)

lemma sum_0_1_0_2:
  "fadd (float_lit 0.1) (float_lit 0.2) = Fin (5404319552844596 / 18014398509481984)"
  unfolding lit_0_1 lit_0_2
  by simp (rule round_binary64_eqI [where e = "- 2" and m = 5404319552844596],
      simp_all add: eval_simps)

lemma sum_0_1_0_2_not_0_3: "fadd (float_lit 0.1) (float_lit 0.2) \<noteq> float_lit 0.3"
  unfolding sum_0_1_0_2 lit_0_3 by simp

section \<open>The loop\<close>

lemma float_of_int_zero: "float_of_int 0 = Inr (Fin 0)"
  by (simp add: float_of_int_def round_binary64_def)

lemma log_loop_float:
  "log_loop logs (out, PyFloat f) =
     Inr (out @ map (case_prod format_row) logs, PyFloat (foldl fadd f (map snd logs)))"
proof (induction logs arbitrary: out f)
  case Nil
  show ?case by simp
next
  case (Cons entry rest)
  obtain food_name calories where entry: "entry = (food_name, calories)"
    by (cases entry)
  show ?case
    by (simp add: entry num_add_def Cons.IH)
qed

lemma log_loop_start:
  "log_loop logs (out, PyInt 0) =
     Inr (out @ map (case_prod format_row) logs,
          case logs of [] \<Rightarrow> PyInt 0 | _ \<Rightarrow> PyFloat (foldl fadd (Fin 0) (map snd logs)))"
proof (cases logs)
  case Nil
  then show ?thesis by simp
next
  case (Cons entry rest)
  obtain food_name calories where entry: "entry = (food_name, calories)"
    by (cases entry)
  show ?thesis
    by (simp add: Cons entry num_add_def float_of_int_zero log_loop_float)
qed

lemma compute_total_eq:
  "compute_total logs =
     Inr (case logs of [] \<Rightarrow> PyInt 0 | _ \<Rightarrow> PyFloat (foldl fadd (Fin 0) (map snd logs)))"
  by (simp add: compute_total_def log_loop_start)

section \<open>The fixed list\<close>

lemma nutrition_logs_not_Nil: "nutrition_logs \<noteq> []"
  by (simp add: nutrition_logs_def)

lemma length_nutrition_logs: "length nutrition_logs = 22"
  by (simp add: nutrition_logs_def)

lemma total_fixed:
  "compute_total nutrition_logs = Inr (PyFloat (Fin (3122580037535007 / 1099511627776)))"
  using nutrition_logs_not_Nil
  by (simp add: compute_total_eq float_sum_fixed split: list.split)

lemma backend_fixed: "backend_value = Fin (6245160075070013 / 2199023255552)"
  by (simp only: backend_value_def lit_2839_97)

lemma diff_fixed:
  "fsub (Fin (3122580037535007 / 1099511627776)) (Fin (6245160075070013 / 2199023255552))
     = Fin (1 / 2199023255552)"
  by (simp add: fsub_def)
    (rule round_binary64_eqI [where e = "- 41" and m = 4503599627370496],
      simp_all add: eval_simps)

lemma difference_fixed:
  "difference nutrition_logs backend_value = Inr (PyFloat (Fin (1 / 2199023255552)))"
  by (simp add: difference_def total_fixed backend_fixed num_sub_def diff_fixed)

section \<open>The text of the report\<close>

lemma replicate_numeral: "replicate (numeral k) x = x # replicate (pred_numeral k) x"
  by (simp add: numeral_eq_Suc)

lemmas text_simps = replicate_numeral format_row_def ljust_def rjust_def fixed_digits_def zfill_def
  str_nat.simps str_int_def asc_def round_half_even_def Let_def floor_rat_numeral


lemma loop_fixed:
  "log_loop nutrition_logs (out, PyInt 0) =
     Inr (out @ map (case_prod format_row) nutrition_logs,
          PyFloat (Fin (3122580037535007 / 1099511627776)))"
  using nutrition_logs_not_Nil
  by (simp add: log_loop_start float_sum_fixed split: list.split)

lemma total_row_fixed:
  "total_row (PyFloat (Fin (3122580037535007 / 1099511627776))) =
     Inr (total_label @ asc ''                                             2839.97 cal'')"
  by (simp add: total_row_def num_format_f_def total_label_def text_simps)

lemma compare_fixed:
  "compare (PyFloat (Fin (3122580037535007 / 1099511627776))) backend_value =
     Inr [backend_label @ asc ''2839.97 cal'', diff_label @ asc ''0.00 cal'']"
  by (simp add: compare_def backend_fixed num_sub_def diff_fixed num_format_f_def text_simps)

lemma round_fixed:
  "py_round (PyFloat (Fin (3122580037535007 / 1099511627776))) = Inr 2840"
  by (simp add: c_round_def floor_rat_numeral)

lemma report_fixed:
  "report nutrition_logs backend_value =
     Inr ([header, rule50] @ map (case_prod format_row) nutrition_logs @
          [rule50,
           total_label @ asc ''                                             2839.97 cal'',
           rounded_label @ asc ''2840 cal'',
           backend_label @ asc ''2839.97 cal'',
           diff_label @ asc ''0.00 cal'',
           ui_label @ asc ''2840 cal''])"
  by (simp add: report_def loop_fixed total_row_fixed round_fixed compare_fixed
      del: py_round.simps) (simp add: text_simps)

section \<open>Rounding to an integer\<close>

lemma frac_bounds: "0 \<le> x - of_int \<lfloor>x\<rfloor>" "x - of_int \<lfloor>x\<rfloor> < (1::rat)"
  by linarith+

lemma round_half_even_near: "\<bar>of_int (round_half_even x) - x\<bar> \<le> 1 / 2"
  using frac_bounds [of x] by (auto simp: round_half_even_def Let_def)

lemma round_half_even_tie:
  assumes "\<bar>of_int (round_half_even x) - x\<bar> = 1 / 2"
  shows "even (round_half_even x)"
  using assms frac_bounds [of x]
  by (auto simp: round_half_even_def Let_def split: if_splits)

lemma c_round_eq:
  "c_round x =
     (let f = \<lfloor>x\<rfloor>; d = x - of_int f
      in if d < 1 / 2 then f else if 1 / 2 < d then f + 1
         else if 0 \<le> x then f + 1 else f)"
proof -
  have "\<lfloor>x + 1 / 2\<rfloor> = (if x - of_int \<lfloor>x\<rfloor> < 1 / 2 then \<lfloor>x\<rfloor> else \<lfloor>x\<rfloor> + 1)"
    by (auto simp: floor_eq_iff) linarith+
  moreover have "- \<lfloor>- x + 1 / 2\<rfloor> = (if x - of_int \<lfloor>x\<rfloor> \<le> 1 / 2 then \<lfloor>x\<rfloor> else \<lfloor>x\<rfloor> + 1)"
  proof -
    have "\<lfloor>- x + 1 / 2\<rfloor> = (if x - of_int \<lfloor>x\<rfloor> \<le> 1 / 2 then - \<lfloor>x\<rfloor> else - \<lfloor>x\<rfloor> - 1)"
      by (auto simp: floor_eq_iff) linarith+
    then show ?thesis by auto
  qed
  ultimately show ?thesis
    by (auto simp: c_round_def Let_def)
qed

lemma float_round_eq: "float_round (Fin x) = Inr (round_half_even x)"
proof -
  define f where "f = \<lfloor>x\<rfloor>"
  define d where "d = x - of_int f"
  have d: "0 \<le> d" "d < 1"
    using frac_bounds [of x] by (simp_all add: d_def f_def)
  have x: "x = of_int f + d"
    by (simp add: d_def)
  have cr: "c_round x = (if d < 1 / 2 then f else if 1 / 2 < d then f + 1
                          else if 0 \<le> x then f + 1 else f)"
    by (simp add: c_round_eq Let_def d_def f_def)
  have rh: "round_half_even x = (if d < 1 / 2 then f else if 1 / 2 < d then f + 1
                          else if even f then f else f + 1)"
    by (simp add: round_half_even_def Let_def d_def f_def)
  consider "d < 1 / 2" | "1 / 2 < d" | "d = 1 / 2"
    by linarith
  then show ?thesis
  proof cases
    case 1
    then have "x - of_int (c_round x) = d"
      by (simp add: cr d_def)
    then have "\<bar>x - of_int (c_round x)\<bar> \<noteq> 1 / 2"
      using 1 d by simp
    then show ?thesis
      using 1 by (simp add: Let_def cr rh)
  next
    case 2
    then have "x - of_int (c_round x) = d - 1"
      by (simp add: cr d_def)
    then have "\<bar>x - of_int (c_round x)\<bar> \<noteq> 1 / 2"
      using 2 d by simp
    then show ?thesis
      using 2 by (simp add: Let_def cr rh)
  next
    case 3
    have "x - of_int (c_round x) = (if 0 \<le> x then d - 1 else d)"
      using 3 by (simp add: cr d_def)
    then have tie: "\<bar>x - of_int (c_round x)\<bar> = 1 / 2"
      using 3 by simp
    define k where "k = f div 2"
    define b where "b = f mod 2"
    have fk: "f = 2 * k + b" and b: "0 \<le> b" "b < 2"
      by (simp_all add: k_def b_def)
    have xh: "x / 2 = of_int k + (of_int b / 2 + 1 / 4)"
      by (simp add: x 3 fk)
    have fl: "\<lfloor>x / 2\<rfloor> = k"
      using b by (simp add: floor_eq_iff xh)
    have dh: "x / 2 - of_int k = of_int b / 2 + 1 / 4"
      unfolding xh by simp
    have ch: "c_round (x / 2) =
        (if of_int b / 2 + 1 / 4 < (1 / 2 :: rat) then k
         else if (1 / 2 :: rat) < of_int b / 2 + 1 / 4 then k + 1
         else if 0 \<le> x / 2 then k + 1 else k)"
      using c_round_eq [of "x / 2"] unfolding Let_def fl dh .
    have half: "c_round (x / 2) = (if b = 0 then k else k + 1)"
    proof (cases "b = 0")
      case True
      then show ?thesis unfolding ch by simp
    next
      case False
      then have "b = 1" using b by linarith
      then show ?thesis unfolding ch by simp
    qed
    have "2 * c_round (x / 2) = (if even f then f else f + 1)"
    proof (cases "b = 0")
      case True
      then show ?thesis by (simp add: half fk)
    next
      case False
      then have "b = 1" using b by linarith
      then show ?thesis by (simp add: half fk)
    qed
    then show ?thesis
      using 3 tie by (simp add: Let_def rh)
  qed
qed

section \<open>Fixed-point texts\<close>

lemma str_nat_not_Nil: "str_nat n \<noteq> []"
  by (subst str_nat.simps) simp

lemma str_nat_digits: "c \<in> set (str_nat n) \<Longrightarrow> 48 \<le> c \<and> c \<le> 57"
proof (induction n rule: str_nat.induct)
  case (1 n)
  show ?case
  proof (cases "n < 10")
    case True
    with "1.prems" show ?thesis
      by (subst (asm) str_nat.simps) simp
  next
    case False
    with "1.prems" have "c \<in> set (str_nat (n div 10)) \<or> c = 48 + n mod 10"
      by (subst (asm) str_nat.simps) auto
    then show ?thesis
    proof
      assume "c \<in> set (str_nat (n div 10))"
      with False "1.IH" show ?thesis by simp
    next
      assume "c = 48 + n mod 10"
      moreover have "n mod 10 < 10" by simp
      ultimately show ?thesis by linarith
    qed
  qed
qed

lemma hd_str_nat: "hd (str_nat n) \<noteq> 45"
  using str_nat_digits [of "hd (str_nat n)" n] str_nat_not_Nil [of n]
  by (auto dest: hd_in_set)

lemma length_str_nat_le: "n < 10 ^ k \<Longrightarrow> 0 < k \<Longrightarrow> length (str_nat n) \<le> k"
proof (induction k arbitrary: n)
  case 0
  then show ?case by simp
next
  case (Suc k)
  show ?case
  proof (cases "n < 10")
    case True
    then show ?thesis by (subst str_nat.simps) simp
  next
    case False
    then have k: "0 < k"
      using Suc.prems(1) by (cases k) simp_all
    have "n div 10 < 10 ^ k"
      using Suc.prems(1) by (simp add: less_mult_imp_div_less mult.commute)
    then have "length (str_nat (n div 10)) \<le> k"
      using Suc.IH k by simp
    with False show ?thesis by (subst str_nat.simps) simp
  qed
qed

lemma digits_value_snoc: "digits_value (xs @ [c]) = 10 * digits_value xs + (c - 48)"
  by (simp add: digits_value_def)

lemma digits_value_str_nat: "digits_value (str_nat n) = n"
proof (induction n rule: str_nat.induct)
  case (1 n)
  show ?case
  proof (cases "n < 10")
    case True
    then show ?thesis by (subst str_nat.simps) (simp add: digits_value_def)
  next
    case False
    with "1.IH" show ?thesis
      by (subst str_nat.simps) (simp add: digits_value_snoc)
  qed
qed

lemma digits_value_zeros: "digits_value (replicate k 48 @ s) = digits_value s"
proof -
  have "foldl (\<lambda>a c. 10 * a + (c - 48)) 0 (replicate k 48) = (0::nat)"
    by (induction k) simp_all
  then show ?thesis by (simp add: digits_value_def)
qed

lemma digits_value_zfill: "digits_value (zfill w s) = digits_value s"
  by (simp add: zfill_def digits_value_zeros)

lemma length_zfill: "length (zfill w s) = max w (length s)"
  by (simp add: zfill_def)

lemma length_fraction: "length (zfill 2 (str_nat (c mod 100))) = 2"
proof -
  have "length (str_nat (c mod 100)) \<le> 2"
    by (rule length_str_nat_le) simp_all
  then show ?thesis by (simp add: length_zfill)
qed

lemma read_fixed_digits:
  "read_fixed 2 (fixed_digits 2 c) = of_nat c / 100"
proof -
  define ip where "ip = str_nat (c div 100)"
  define fp where "fp = zfill 2 (str_nat (c mod 100))"
  have fp: "length fp = 2"
    by (simp add: fp_def length_fraction)
  have body: "fixed_digits 2 c = ip @ 46 # fp"
    by (simp add: fixed_digits_def ip_def fp_def)
  have nn: "(ip @ 46 # fp \<noteq> [] \<and> hd (ip @ 46 # fp) = 45) = False"
    using hd_str_nat [of "c div 100"] str_nat_not_Nil [of "c div 100"]
    by (simp add: ip_def)
  have "read_fixed 2 (ip @ 46 # fp)
      = of_nat (digits_value ip) + of_nat (digits_value fp) / 100"
    unfolding read_fixed_def Let_def nn using fp by simp
  also have "\<dots> = of_nat (c div 100) + of_nat (c mod 100) / 100"
    by (simp add: ip_def fp_def digits_value_str_nat digits_value_zfill)
  also have "\<dots> = (of_nat (c div 100) * 100 + of_nat (c mod 100)) / (100 :: rat)"
    by simp
  also have "\<dots> = (of_nat (c div 100 * 100 + c mod 100) :: rat) / 100"
    by (simp only: of_nat_add of_nat_mult of_nat_numeral)
  also have "\<dots> = of_nat c / 100"
    by simp
  finally show ?thesis by (simp add: body)
qed

lemma read_fixed_minus:
  "read_fixed 2 (45 # fixed_digits 2 c) = - (of_nat c / 100)"
proof -
  have "read_fixed 2 (45 # fixed_digits 2 c) = - read_fixed 2 (fixed_digits 2 c)"
  proof -
    have nn: "(fixed_digits 2 c \<noteq> [] \<and> hd (fixed_digits 2 c) = 45) = False"
      using hd_str_nat [of "c div 100"] str_nat_not_Nil [of "c div 100"]
      by (simp add: fixed_digits_def)
    show ?thesis
      unfolding read_fixed_def [of 2 "45 # fixed_digits 2 c"]
        read_fixed_def [of 2 "fixed_digits 2 c"] Let_def nn
      by simp
  qed
  then show ?thesis by (simp add: read_fixed_digits)
qed

lemma round_half_even_nonneg: "0 \<le> x \<Longrightarrow> 0 \<le> round_half_even x"
  by (auto simp: round_half_even_def Let_def)

lemma read_format_f:
  "\<bar>read_fixed 2 (format_f 2 (Fin v)) - v\<bar> \<le> 1 / 200"
proof -
  define c where "c = round_half_even (\<bar>v\<bar> * 100)"
  have c0: "0 \<le> c"
    unfolding c_def by (rule round_half_even_nonneg) simp
  have near: "\<bar>of_int c - \<bar>v\<bar> * 100\<bar> \<le> 1 / 2"
    unfolding c_def by (rule round_half_even_near)
  have cn: "(of_nat (nat c) :: rat) = of_int c"
    using c0 by simp
  show ?thesis
  proof (cases "v < 0")
    case True
    have "format_f 2 (Fin v) = 45 # fixed_digits 2 (nat c)"
      unfolding c_def using True by simp
    then have "read_fixed 2 (format_f 2 (Fin v)) = - (of_int c / 100)"
      by (simp add: read_fixed_minus cn)
    then show ?thesis using near True by linarith
  next
    case False
    have "format_f 2 (Fin v) = fixed_digits 2 (nat c)"
      unfolding c_def using False by simp
    then have "read_fixed 2 (format_f 2 (Fin v)) = of_int c / 100"
      by (simp add: read_fixed_digits cn)
    then show ?thesis using near False by linarith
  qed
qed

section \<open>The structure of the report\<close>

lemma total_row_float: "total_row (PyFloat f) = Inr (format_row total_label f)"
  by (simp add: total_row_def num_format_f_def format_row_def)

lemma total_row_zero: "total_row (PyInt 0) = Inr (format_row total_label (Fin 0))"
  by (simp add: total_row_def num_format_f_def format_row_def float_of_int_zero)

lemma compare_float:
  "compare (PyFloat t) b =
     Inr [backend_label @ format_f 2 b @ asc '' cal'',
          diff_label @ format_f 2 (fabs (fsub t b)) @ asc '' cal'']"
  by (simp add: compare_def num_sub_def num_format_f_def)

lemma compare_zero:
  "compare (PyInt 0) b =
     Inr [backend_label @ format_f 2 b @ asc '' cal'',
          diff_label @ format_f 2 (fabs (fsub (Fin 0) b)) @ asc '' cal'']"
  by (simp add: compare_def num_sub_def num_format_f_def float_of_int_zero)

lemma ui_display_eq:
  "ui_display logs =
     (case logs of [] \<Rightarrow> Inr 0 | _ \<Rightarrow> float_round (foldl fadd (Fin 0) (map snd logs)))"
  by (simp add: ui_display_def compute_total_eq split: list.split)

lemma report_eq:
  "report logs backend =
     (case ui_display logs of
        Inl e \<Rightarrow> Inl e
      | Inr r \<Rightarrow>
          Inr ([header, rule50] @ map (case_prod format_row) logs @
               [rule50,
                format_row total_label (foldl fadd (Fin 0) (map snd logs)),
                rounded_label @ str_int r @ asc '' cal'',
                backend_label @ format_f 2 backend @ asc '' cal'',
                diff_label @ format_f 2 (fabs (fsub (foldl fadd (Fin 0) (map snd logs)) backend))
                  @ asc '' cal'',
                ui_label @ str_int r @ asc '' cal'']))"
proof (cases logs)
  case Nil
  then show ?thesis
    by (simp add: report_def ui_display_eq total_row_zero compare_zero)
next
  case (Cons entry rest)
  then show ?thesis
    by (simp add: report_def ui_display_eq log_loop_start total_row_float compare_float
        del: fadd.simps split: sum.split)
qed

lemma round_half_even_le:
  assumes "x < of_int n + 1 / 2"
  shows "round_half_even x \<le> n"
proof -
  have f: "of_int \<lfloor>x\<rfloor> \<le> x" "x < of_int \<lfloor>x\<rfloor> + 1"
    by linarith+
  have "\<lfloor>x\<rfloor> \<le> n"
    using assms f by linarith
  moreover have "\<lfloor>x\<rfloor> < n" if "1 / 2 \<le> x - of_int \<lfloor>x\<rfloor>"
  proof -
    have "(of_int \<lfloor>x\<rfloor> :: rat) < of_int n"
      using that assms by linarith
    then show ?thesis by simp
  qed
  ultimately show ?thesis
    by (auto simp: round_half_even_def Let_def)
qed

lemma fraction_digits:
  assumes "k < 100"
  shows "zfill 2 (str_nat k) = [48 + k div 10, 48 + k mod 10]"
proof (cases "k < 10")
  case True
  then show ?thesis
    by (subst str_nat.simps) (simp add: zfill_def)
next
  case False
  have "k div 10 < 10"
    using assms by simp
  then have "str_nat (k div 10) = [48 + k div 10]"
    by (subst str_nat.simps) simp
  with False show ?thesis
    by (subst str_nat.simps) (simp add: zfill_def)
qed

lemma format_f_digits:
  "format_f 2 (Fin v) =
     (if v < 0 then [45] else []) @
     str_nat (nat (round_half_even (\<bar>v\<bar> * 100)) div 100) @
     [46, 48 + nat (round_half_even (\<bar>v\<bar> * 100)) mod 100 div 10,
          48 + nat (round_half_even (\<bar>v\<bar> * 100)) mod 10]"
proof -
  define c where "c = nat (round_half_even (\<bar>v\<bar> * 100))"
  have "zfill 2 (str_nat (c mod 100)) = [48 + c mod 100 div 10, 48 + c mod 100 mod 10]"
    by (rule fraction_digits) simp
  moreover have "c mod 100 mod 10 = c mod 10"
    by (simp add: mod_mod_cancel)
  ultimately show ?thesis
    by (simp add: fixed_digits_def c_def)
qed

lemma length_value_field:
  assumes "0 \<le> v" "v < 99999.995"
  shows "length (rjust 8 (format_f 2 (Fin v))) = 8"
proof -
  define c where "c = nat (round_half_even (\<bar>v\<bar> * 100))"
  have "round_half_even (\<bar>v\<bar> * 100) \<le> 9999999"
    by (rule round_half_even_le) (use assms in simp)
  then have "c < 10000000"
    by (simp add: c_def)
  then have "c div 100 < 10 ^ 5"
    by simp
  then have "length (str_nat (c div 100)) \<le> 5"
    by (rule length_str_nat_le) simp
  moreover have "format_f 2 (Fin v) = str_nat (c div 100) @ 46 # zfill 2 (str_nat (c mod 100))"
    using assms(1) by (simp add: fixed_digits_def c_def)
  ultimately have "length (format_f 2 (Fin v)) \<le> 8"
    by (simp add: length_fraction)
  then show ?thesis
    by (simp add: rjust_def)
qed

lemma calories_take_19:
  "map snd (take 19 nutrition_logs) = [float_lit 154.72, float_lit 0.00, float_lit 165.00, float_lit 0.00, float_lit 57.57, float_lit 117.50, float_lit 337.50, float_lit 60.00, float_lit 530.00, float_lit 53.14, float_lit 107.00, float_lit 237.06, float_lit 0.00, float_lit 0.00, float_lit 0.00, float_lit 351.51, float_lit 0.00, float_lit 90.00, float_lit 276.75]"
  by (simp add: nutrition_logs_def)

lemma calories_take_20:
  "map snd (take 20 nutrition_logs) = [float_lit 154.72, float_lit 0.00, float_lit 165.00, float_lit 0.00, float_lit 57.57, float_lit 117.50, float_lit 337.50, float_lit 60.00, float_lit 530.00, float_lit 53.14, float_lit 107.00, float_lit 237.06, float_lit 0.00, float_lit 0.00, float_lit 0.00, float_lit 351.51, float_lit 0.00, float_lit 90.00, float_lit 276.75, float_lit 151.11]"
  by (simp add: nutrition_logs_def)

lemma calories_take_21:
  "map snd (take 21 nutrition_logs) = [float_lit 154.72, float_lit 0.00, float_lit 165.00, float_lit 0.00, float_lit 57.57, float_lit 117.50, float_lit 337.50, float_lit 60.00, float_lit 530.00, float_lit 53.14, float_lit 107.00, float_lit 237.06, float_lit 0.00, float_lit 0.00, float_lit 0.00, float_lit 351.51, float_lit 0.00, float_lit 90.00, float_lit 276.75, float_lit 151.11, float_lit 151.11]"
  by (simp add: nutrition_logs_def)

lemma float_sum_take_19:
  "foldl fadd (Fin 0) (map snd (take 19 nutrition_logs)) = Fin (10151 / 4)"
  by (simp only: calories_take_19 lit_simps foldl.simps sum_simps)

lemma float_sum_take_20:
  "foldl fadd (Fin 0) (map snd (take 20 nutrition_logs))
     = Fin (5912865670923551 / 2199023255552)"
  by (simp only: calories_take_20 lit_simps foldl.simps sum_simps)

lemma float_sum_take_21:
  "foldl fadd (Fin 0) (map snd (take 21 nutrition_logs))
     = Fin (3122580037535007 / 1099511627776)"
  by (simp only: calories_take_21 lit_simps foldl.simps sum_simps)

lemma compute_total_nonempty:
  "logs \<noteq> [] \<Longrightarrow>
     compute_total logs = Inr (PyFloat (foldl fadd (Fin 0) (map snd logs)))"
  by (cases logs) (simp_all add: compute_total_eq del: fadd.simps)

lemma take_not_Nil: "0 < k \<Longrightarrow> take k nutrition_logs \<noteq> []"
  using nutrition_logs_not_Nil by (cases k) auto

lemma compute_total_snoc:
  "compute_total (logs @ [(food_name, calories)]) =
     (case compute_total logs of Inl e \<Rightarrow> Inl e | Inr t \<Rightarrow> num_add t calories)"
  by (cases logs) (simp_all add: compute_total_eq num_add_def float_of_int_zero del: fadd.simps)

section \<open>The comparison, the trace of the script and the standard output\<close>

lemma round_binary64_neg_eqI:
  assumes x: "0 < x" and e: "floor_log2 x = e" "- 1022 \<le> e"
    and m: "round_half_even (x / pow2 (e - 52)) = m" "0 < m"
    and r: "of_int m * pow2 (e - 52) = r" "r < of_int (2 ^ 1024)"
  shows "round_binary64 (- x) = Fin (- r)"
proof -
  have ax: "\<bar>- x\<bar> = x" and mx: "max (floor_log2 x) (- 1022) = e"
    using x e by simp_all
  have r0: "r \<noteq> 0"
    using m(2) r(1) pow2_pos [of "e - 52"] by auto
  have "round_binary64 (- x) = (if of_int (2 ^ 1024) \<le> r then NegInf else Fin (- r))"
    using x r0 unfolding round_binary64_def Let_def ax mx m(1) r(1) by simp
  then show ?thesis
    using r(2) by simp
qed

lemma fabs_value: "float_value x = Some d \<Longrightarrow> fabs x = Fin \<bar>d\<bar>"
  by (cases x) simp_all

lemma format_f_nonneg_no_sign:
  assumes "0 \<le> a"
  shows "format_f 2 (Fin a) \<noteq> [] \<and> hd (format_f 2 (Fin a)) \<noteq> 45"
proof -
  define n where "n = nat (round_half_even (\<bar>a\<bar> * 10\<^sup>2)) div 10\<^sup>2"
  have "format_f 2 (Fin a) = str_nat n @ 46 # zfill 2 (str_nat (nat (round_half_even (\<bar>a\<bar> * 10\<^sup>2)) mod 10\<^sup>2))"
    using assms by (simp add: fixed_digits_def n_def)
  then show ?thesis
    using hd_str_nat [of n] str_nat_not_Nil [of n] by simp
qed

lemma format_f_fabs_no_sign: "format_f 2 (fabs x) \<noteq> [] \<and> hd (format_f 2 (fabs x)) \<noteq> 45"
proof (cases x)
  case (Fin a)
  then show ?thesis
    using format_f_nonneg_no_sign [of "\<bar>a\<bar>"] by simp
next
  case NegZero
  then show ?thesis
    using format_f_nonneg_no_sign [of 0] by simp
qed (simp_all add: asc_def)

lemma sub_1_9_8: "fsub (Fin 1) (Fin (9 / 8)) = Fin (- (1 / 8))"
  by (simp add: fsub_def)
    (rule round_binary64_neg_eqI [where x = "1 / 8" and e = "- 3" and m = 4503599627370496,
        simplified], simp_all add: eval_simps)

lemma sub_9_8_1: "fsub (Fin (9 / 8)) (Fin 1) = Fin (1 / 8)"
  by (simp add: fsub_def)
    (rule round_binary64_eqI [where e = "- 3" and m = 4503599627370496],
      simp_all add: eval_simps)

lemma compare_below:
  "compare (PyFloat (Fin 1)) (Fin (9 / 8)) =
     Inr [backend_label @ asc ''1.12 cal'', diff_label @ asc ''0.12 cal'']"
  by (simp add: compare_float sub_1_9_8 del: format_f.simps) (simp add: text_simps)

lemma compare_above:
  "compare (PyFloat (Fin (9 / 8))) (Fin 1) =
     Inr [backend_label @ asc ''1.00 cal'', diff_label @ asc ''0.12 cal'']"
  by (simp add: compare_float sub_9_8_1 del: format_f.simps) (simp add: text_simps)






































section \<open>The claims\<close>

text \<open>
  C1, as stated: the total of the 22 listed entries is approximately 2839.86. It is not:
  the computed total is not within 0.01 of 2839.86.
\<close>

theorem total_not_near_2839_86:
  "\<not> near (compute_total nutrition_logs) 2839.86 (1 / 100)"
  by (simp add: near_def total_fixed)

text \<open>
  C1, amended: for the 22 listed entries the computed total is the left-to-right float
  sum of the listed calorie values; that sum is the binary64 number
  \<open>3122580037535007 / 2^40\<close>, which is within \<open>10^-12\<close> of 2839.97.
\<close>

theorem total_fixed_list:
  "length nutrition_logs = 22
   \<and> compute_total nutrition_logs
       = Inr (PyFloat (foldl fadd (Fin 0) (map snd nutrition_logs)))
   \<and> compute_total nutrition_logs = Inr (PyFloat (Fin (3122580037535007 / 2 ^ 40)))
   \<and> near (compute_total nutrition_logs) 2839.97 (1 / 10 ^ 12)"
  by (simp add: length_nutrition_logs total_fixed float_sum_fixed near_def)

text \<open>
  C2, as stated: the computed total and the reference value 2839.97 differ by
  approximately 0.11. They do not: the difference is not within 0.01 of 0.11.
\<close>

theorem difference_not_near_0_11:
  "\<not> near (difference nutrition_logs backend_value) 0.11 (1 / 100)"
  by (simp add: near_def difference_fixed)

text \<open>
  C2, amended: the computed total and the reference value 2839.97 differ by
  \<open>2^-41\<close> (one unit in the last place of the total, less than \<open>10^-12\<close>), and the
  comparison step prints this difference as \<open>0.00\<close>, after the reference value
  \<open>2839.97\<close>.
\<close>

theorem difference_fixed_list:
  "difference nutrition_logs backend_value = Inr (PyFloat (Fin (1 / 2 ^ 41)))
   \<and> near (difference nutrition_logs backend_value) 0 (1 / 10 ^ 12)
   \<and> compute_total nutrition_logs = Inr (PyFloat (Fin (3122580037535007 / 1099511627776)))
   \<and> compare (PyFloat (Fin (3122580037535007 / 1099511627776))) backend_value
       = Inr [backend_label @ asc ''2839.97 cal'', diff_label @ asc ''0.00 cal'']"
  by (simp add: difference_fixed near_def total_fixed compare_fixed)

text \<open>
  C3, as stated: every entry line has its label padded or truncated to exactly 45
  columns. The entry \<open>California Gold Nutrition, CoQ10 with Bioperine\<close> of the list
  has 47 code points, and its line differs from the line the specification describes.
\<close>

theorem long_label_not_truncated:
  "(asc ''California Gold Nutrition, CoQ10 with Bioperine'', float_lit 0.00) \<in> set nutrition_logs
   \<and> format_row (asc ''California Gold Nutrition, CoQ10 with Bioperine'') (float_lit 0.00)
       \<noteq> spec_format_row (asc ''California Gold Nutrition, CoQ10 with Bioperine'') (float_lit 0.00)"
proof -
  have "length (format_row (asc ''California Gold Nutrition, CoQ10 with Bioperine'') (float_lit 0.00))
      \<noteq> length (spec_format_row (asc ''California Gold Nutrition, CoQ10 with Bioperine'') (float_lit 0.00))"
    by (simp add: format_row_def spec_format_row_def ljust_def asc_def)
  then have "format_row (asc ''California Gold Nutrition, CoQ10 with Bioperine'') (float_lit 0.00)
       \<noteq> spec_format_row (asc ''California Gold Nutrition, CoQ10 with Bioperine'') (float_lit 0.00)"
    by metis
  moreover have "(asc ''California Gold Nutrition, CoQ10 with Bioperine'', float_lit 0.00)
      \<in> set nutrition_logs"
    by (simp add: nutrition_logs_def)
  ultimately show ?thesis by simp
qed

text \<open>
  C3, amended: a run that succeeds prints the header and a rule, then one line for each
  entry in order, then a rule of 50 hyphens, the totals line (the row layout applied to
  the label \<open>total_label\<close> and the total), the line of the rounded total, the two
  comparison lines and the display line. An entry line is the label followed by spaces
  up to 45 code points (a longer label is kept whole, never truncated), a space, the
  calories with 2 decimals right-aligned in a field of at least 8 code points (exactly 8
  for a value from 0 to below 99999.995), and \<open> cal\<close>. The decimals are the digits of
  the value rounded to hundredths, ties to even.
\<close>

theorem report_layout:
  "(report logs backend = Inr out \<longrightarrow>
      (\<exists>r. ui_display logs = Inr r \<and>
         out = [header, rule50] @ map (case_prod format_row) logs @
               [rule50,
                format_row total_label (foldl fadd (Fin 0) (map snd logs)),
                rounded_label @ str_int r @ asc '' cal'',
                backend_label @ format_f 2 backend @ asc '' cal'',
                diff_label @ format_f 2 (fabs (fsub (foldl fadd (Fin 0) (map snd logs)) backend))
                  @ asc '' cal'',
                ui_label @ str_int r @ asc '' cal'']))
   \<and> format_row food_name calories =
       food_name @ replicate (45 - length food_name) 32 @ [32] @
       replicate (8 - length (format_f 2 calories)) 32 @ format_f 2 calories @ asc '' cal''
   \<and> length (ljust 45 food_name) = max 45 (length food_name)
   \<and> take (length food_name) (ljust 45 food_name) = food_name
   \<and> length (rjust 8 s) = max 8 (length s)
   \<and> (0 \<le> v \<and> v < 99999.995 \<longrightarrow> length (rjust 8 (format_f 2 (Fin v))) = 8)
   \<and> format_f 2 (Fin v) =
       (if v < 0 then [45] else []) @
       str_nat (nat (round_half_even (\<bar>v\<bar> * 100)) div 100) @
       [46, 48 + nat (round_half_even (\<bar>v\<bar> * 100)) mod 100 div 10,
            48 + nat (round_half_even (\<bar>v\<bar> * 100)) mod 10]"
proof -
  have "report logs backend = Inr out \<longrightarrow>
      (\<exists>r. ui_display logs = Inr r \<and>
         out = [header, rule50] @ map (case_prod format_row) logs @
               [rule50,
                format_row total_label (foldl fadd (Fin 0) (map snd logs)),
                rounded_label @ str_int r @ asc '' cal'',
                backend_label @ format_f 2 backend @ asc '' cal'',
                diff_label @ format_f 2 (fabs (fsub (foldl fadd (Fin 0) (map snd logs)) backend))
                  @ asc '' cal'',
                ui_label @ str_int r @ asc '' cal''])"
    by (cases "ui_display logs") (auto simp: report_eq)
  moreover have "format_row food_name calories =
       food_name @ replicate (45 - length food_name) 32 @ [32] @
       replicate (8 - length (format_f 2 calories)) 32 @ format_f 2 calories @ asc '' cal''"
    by (simp add: format_row_def ljust_def rjust_def asc_def)
  moreover have "length (ljust 45 food_name) = max 45 (length food_name)"
    "take (length food_name) (ljust 45 food_name) = food_name"
    "length (rjust 8 s) = max 8 (length s)"
    by (simp_all add: ljust_def rjust_def)
  moreover have "0 \<le> v \<and> v < 99999.995 \<longrightarrow> length (rjust 8 (format_f 2 (Fin v))) = 8"
    using length_value_field [of v] by blast
  ultimately show ?thesis
    using format_f_digits [of v] by (simp del: format_f.simps)
qed

theorem report_layout_witness:
  "report nutrition_logs backend_value =
     Inr ([header, rule50] @ map (case_prod format_row) nutrition_logs @
          [rule50,
           total_label @ asc ''                                             2839.97 cal'',
           rounded_label @ asc ''2840 cal'',
           backend_label @ asc ''2839.97 cal'',
           diff_label @ asc ''0.00 cal'',
           ui_label @ asc ''2840 cal''])
   \<and> (\<exists>r. ui_display nutrition_logs = Inr r \<and>
        format_row total_label (foldl fadd (Fin 0) (map snd nutrition_logs))
          = total_label @ asc ''                                             2839.97 cal''
        \<and> rounded_label @ str_int r @ asc '' cal'' = rounded_label @ asc ''2840 cal'')
   \<and> (0 :: rat) \<le> 8102257204616233 / 140737488355328
   \<and> (8102257204616233 / 140737488355328 :: rat) < 99999.995
   \<and> length (rjust 8 (format_f 2 (Fin (8102257204616233 / 140737488355328)))) = 8"
  using report_layout [of nutrition_logs backend_value
      "[header, rule50] @ map (case_prod format_row) nutrition_logs @
          [rule50,
           total_label @ asc ''                                             2839.97 cal'',
           rounded_label @ asc ''2840 cal'',
           backend_label @ asc ''2839.97 cal'',
           diff_label @ asc ''0.00 cal'',
           ui_label @ asc ''2840 cal'']"
      "asc ''Broccoli''" "Fin (8102257204616233 / 140737488355328)" "[]"
      "8102257204616233 / 140737488355328"]
    report_fixed
  by (auto simp del: format_f.simps)

text \<open>
  C4: the rounding of the computed total of the 22 listed entries, the value of
  \<open>ui_display\<close>, is 2840.
\<close>

theorem ui_display_fixed_list: "ui_display nutrition_logs = Inr 2840"
  by (simp add: ui_display_def total_fixed c_round_def floor_rat_numeral)

text \<open>
  C5: the comparison step prints the reference value with 2 decimals and the absolute
  difference \<open>abs(total_calories - backend_value)\<close> with 2 decimals, for a float total
  and for the \<open>int\<close> 0 of an empty list. The difference printed is the absolute value:
  when the float difference is the number \<open>d\<close>, the text printed reads back within
  0.005 of \<open>\<bar>d\<bar>\<close>, and it never begins with a minus sign; a total of 1 against a
  reference of 1.125 and a total of 1.125 against a reference of 1 both print \<open>0.12\<close>.
  For the total of the listed entries and the reference 2839.97 the difference is
  \<open>2^-41\<close>, printed \<open>0.00\<close>.
\<close>

theorem compare_renders:
  "compare (PyFloat t) b =
     Inr [backend_label @ format_f 2 b @ asc '' cal'',
          diff_label @ format_f 2 (fabs (fsub t b)) @ asc '' cal'']
   \<and> compare (PyInt 0) b =
     Inr [backend_label @ format_f 2 b @ asc '' cal'',
          diff_label @ format_f 2 (fabs (fsub (Fin 0) b)) @ asc '' cal'']
   \<and> (float_value (fsub t b) = Some d \<longrightarrow>
        fabs (fsub t b) = Fin \<bar>d\<bar>
        \<and> \<bar>read_fixed 2 (format_f 2 (fabs (fsub t b))) - \<bar>d\<bar>\<bar> \<le> 1 / 200)
   \<and> format_f 2 (fabs x) \<noteq> [] \<and> hd (format_f 2 (fabs x)) \<noteq> 45
   \<and> \<bar>read_fixed 2 (format_f 2 (Fin v)) - v\<bar> \<le> 1 / 200
   \<and> compare (PyFloat (Fin 1)) (Fin (9 / 8)) =
       Inr [backend_label @ asc ''1.12 cal'', diff_label @ asc ''0.12 cal'']
   \<and> compare (PyFloat (Fin (9 / 8))) (Fin 1) =
       Inr [backend_label @ asc ''1.00 cal'', diff_label @ asc ''0.12 cal'']
   \<and> fabs (fsub (Fin (3122580037535007 / 1099511627776)) (float_lit 2839.97))
       = Fin (1 / 2 ^ 41)
   \<and> format_f 2 (float_lit 2839.97) = asc ''2839.97''
   \<and> format_f 2 (Fin (1 / 2 ^ 41)) = asc ''0.00''"
proof -
  have "fabs (fsub (Fin (3122580037535007 / 1099511627776)) (float_lit 2839.97))
       = Fin (1 / 2 ^ 41)"
    by (simp only: lit_2839_97 diff_fixed) simp
  moreover have "format_f 2 (float_lit 2839.97) = asc ''2839.97''"
    by (simp only: lit_2839_97) (simp add: text_simps)
  moreover have "format_f 2 (Fin (1 / 2 ^ 41)) = asc ''0.00''"
    by (simp add: text_simps)
  moreover have "float_value (fsub t b) = Some d \<longrightarrow>
        fabs (fsub t b) = Fin \<bar>d\<bar>
        \<and> \<bar>read_fixed 2 (format_f 2 (fabs (fsub t b))) - \<bar>d\<bar>\<bar> \<le> 1 / 200"
    using read_format_f [of "\<bar>d\<bar>"] by (auto dest: fabs_value simp del: format_f.simps)
  ultimately show ?thesis
    using compare_float [of t b] compare_zero [of b] read_format_f [of v]
      format_f_fabs_no_sign [of x] compare_below compare_above
    by blast
qed

theorem compare_renders_witness:
  "float_value (fsub (Fin 1) (Fin (9 / 8))) = Some (- (1 / 8))
   \<and> fabs (fsub (Fin 1) (Fin (9 / 8))) = Fin \<bar>- (1 / 8)\<bar>
   \<and> \<bar>read_fixed 2 (format_f 2 (fabs (fsub (Fin 1) (Fin (9 / 8))))) - \<bar>- (1 / 8)\<bar>\<bar> \<le> 1 / 200"
  using compare_renders [of "Fin 1" "Fin (9 / 8)" "- (1 / 8)" NaN 0]
  by (simp add: sub_1_9_8 del: format_f.simps)

text \<open>
  C6: for every entry list the computed total is the left-to-right float sum of the
  calories, starting from the \<open>int\<close> 0, each element of the list contributing once:
  appending an entry adds its calories to the total. The two equal entries at positions
  19 and 20 of the fixed list (counted from 0) each add their 151.11: the totals of the
  first 19, 20 and 21 entries are 2537.75, about 2688.86 and about 2839.97. The entries
  are only read: the loop has no access to change the list.
\<close>

theorem total_is_ordered_sum:
  "compute_total logs =
     Inr (case logs of [] \<Rightarrow> PyInt 0 | _ \<Rightarrow> PyFloat (foldl fadd (Fin 0) (map snd logs)))
   \<and> compute_total (logs @ [(food_name, calories)]) =
       (case compute_total logs of Inl e \<Rightarrow> Inl e | Inr t \<Rightarrow> num_add t calories)
   \<and> nutrition_logs ! 19 = nutrition_logs ! 20
   \<and> snd (nutrition_logs ! 19) = float_lit 151.11
   \<and> compute_total (take 19 nutrition_logs) = Inr (PyFloat (Fin (10151 / 4)))
   \<and> compute_total (take 20 nutrition_logs)
       = Inr (PyFloat (Fin (5912865670923551 / 2199023255552)))
   \<and> compute_total (take 21 nutrition_logs)
       = Inr (PyFloat (Fin (3122580037535007 / 1099511627776)))"
proof -
  have dup: "nutrition_logs ! 19 = nutrition_logs ! 20"
    "snd (nutrition_logs ! 19) = float_lit 151.11"
    by (simp_all add: nutrition_logs_def)
  have "compute_total (take 19 nutrition_logs) = Inr (PyFloat (Fin (10151 / 4)))"
    using compute_total_nonempty [OF take_not_Nil [of 19]]
    by (simp only: float_sum_take_19)
  moreover have "compute_total (take 20 nutrition_logs)
       = Inr (PyFloat (Fin (5912865670923551 / 2199023255552)))"
    using compute_total_nonempty [OF take_not_Nil [of 20]]
    by (simp only: float_sum_take_20)
  moreover have "compute_total (take 21 nutrition_logs)
       = Inr (PyFloat (Fin (3122580037535007 / 1099511627776)))"
    using compute_total_nonempty [OF take_not_Nil [of 21]]
    by (simp only: float_sum_take_21)
  ultimately show ?thesis
    using dup compute_total_eq [of logs] compute_total_snoc [of logs food_name calories]
    by simp
qed

text \<open>
  C7: for an empty entry list the total is the \<open>int\<close> 0 the accumulator starts from,
  which equals the float 0.0 and is printed \<open>0.00\<close>, and the rounded total is 0.
\<close>

theorem empty_list_total:
  "compute_total [] = Inr (PyInt 0)
   \<and> num_value (PyInt 0) = Some 0
   \<and> num_value (PyInt 0) = num_value (PyFloat (Fin 0))
   \<and> ui_display [] = Inr 0
   \<and> total_row (PyInt 0)
       = Inr (total_label @ asc ''                                                0.00 cal'')"
  by (simp add: compute_total_eq ui_display_eq total_row_zero total_label_def text_simps)

text \<open>
  C8: \<open>round\<close> of a finite float returns the nearest integer, and in a halfway case
  the even one: 0.5 gives 0, 1.5 and 2.5 give 2, -2.5 gives -2. An \<open>int\<close> is its own
  rounding.
\<close>

theorem round_is_half_even:
  "(\<exists>n. float_round (Fin x) = Inr n)
   \<and> (float_round (Fin x) = Inr n \<longrightarrow>
        \<bar>of_int n - x\<bar> \<le> 1 / 2 \<and> (\<bar>of_int n - x\<bar> = 1 / 2 \<longrightarrow> even n))
   \<and> py_round (PyInt i) = Inr i
   \<and> py_round (PyFloat (Fin (1 / 2))) = Inr 0
   \<and> py_round (PyFloat (Fin (3 / 2))) = Inr 2
   \<and> py_round (PyFloat (Fin (5 / 2))) = Inr 2
   \<and> py_round (PyFloat (Fin (- 5 / 2))) = Inr (- 2)"
proof -
  have "float_round (Fin x) = Inr n \<longrightarrow>
        \<bar>of_int n - x\<bar> \<le> 1 / 2 \<and> (\<bar>of_int n - x\<bar> = 1 / 2 \<longrightarrow> even n)"
    using round_half_even_near [of x] round_half_even_tie [of x]
    by (auto simp: float_round_eq simp del: float_round.simps)
  moreover have "py_round (PyFloat (Fin (1 / 2))) = Inr 0"
    "py_round (PyFloat (Fin (3 / 2))) = Inr 2"
    "py_round (PyFloat (Fin (5 / 2))) = Inr 2"
    "py_round (PyFloat (Fin (- 5 / 2))) = Inr (- 2)"
    by (simp_all add: c_round_def floor_rat_numeral)
  ultimately show ?thesis
    by (simp add: float_round_eq del: float_round.simps)
qed

theorem round_is_half_even_witness:
  "float_round (Fin (5 / 2)) = Inr 2
   \<and> \<bar>of_int 2 - (5 / 2 :: rat)\<bar> \<le> 1 / 2
   \<and> \<bar>of_int 2 - (5 / 2 :: rat)\<bar> = 1 / 2 \<and> even (2 :: int)"
  using round_is_half_even [of "5 / 2" 2 0]
  by (simp add: c_round_def floor_rat_numeral)







end
